theory Spec2Isabelle
  imports Complex_Main "HOL-Library.Multiset"
begin

section \<open>The analyze route (src/app/api/analyze/route.ts)\<close>

text \<open>
  The handler \<open>POST\<close> reads a JSON body, keeps the rows whose \<open>views\<close> is a number,
  aggregates them by hour, content type and hashtag in one loop over three \<open>Map\<close>s, ranks
  the aggregates and builds a list of action strings.

  Conventions of the embedding.
  \<^item> JSON numbers are integer-valued (\<open>int\<close>), as the data model has them; sums of them are
    exact. Quotients, \<open>toFixed\<close> and the scores are exact rationals: the rounding of IEEE
    doubles is not modelled.
  \<^item> A JavaScript \<open>Map\<close> is an association list in insertion order: \<open>set\<close> on a key
    that is present keeps its position, \<open>set\<close> on a new key appends.
  \<^item> Strings are lists of 8-bit characters; \<open>\s\<close> and \<open>toLowerCase\<close> are the ASCII ones.
  \<^item> The fields \<open>platform\<close>, \<open>postId\<close>, \<open>date\<close>, \<open>title\<close> and \<open>watchTimeSec\<close> of a
    row are never read by the handler and are left out of the record.
\<close>

subsection \<open>JavaScript values and numbers\<close>

text \<open>
  The values a JSON field can hold, as far as the handler inspects them with \<open>typeof\<close>,
  \<open>||\<close> and \<open>Number\<close>: an absent field, \<open>null\<close>, a boolean, a number and the empty
  object \<open>{}\<close>. Strings and arrays in a numeric field are not modelled (their conversion
  by \<open>Number\<close> needs the grammar of numeric literals).
\<close>

datatype jsval = JUndefined | JNull | JBool bool | JNum int | JEmptyObject

datatype jsnum = NaN | Fin int

fun truthy :: "jsval \<Rightarrow> bool" where
  "truthy JUndefined = False"
| "truthy JNull = False"
| "truthy (JBool b) = b"
| "truthy (JNum n) = (n \<noteq> 0)"
| "truthy JEmptyObject = True"

text \<open>\<open>Number(v)\<close>: the empty object converts through the string \<open>[object Object]\<close>.\<close>

fun Number :: "jsval \<Rightarrow> jsnum" where
  "Number JUndefined = NaN"
| "Number JNull = Fin 0"
| "Number (JBool b) = Fin (if b then 1 else 0)"
| "Number (JNum n) = Fin n"
| "Number JEmptyObject = NaN"

fun Math_min :: "jsnum \<Rightarrow> jsnum \<Rightarrow> jsnum" where
  "Math_min (Fin a) (Fin b) = Fin (min a b)"
| "Math_min _ _ = NaN"

fun Math_max :: "jsnum \<Rightarrow> jsnum \<Rightarrow> jsnum" where
  "Math_max (Fin a) (Fin b) = Fin (max a b)"
| "Math_max _ _ = NaN"

text \<open>\<open>Math.round\<close> rounds to the nearest integer, a half upwards.\<close>

definition Math_round :: "rat \<Rightarrow> int" where
  "Math_round x = \<lfloor>x + 1 / 2\<rfloor>"

text \<open>
  \<open>Number(x.toFixed(f))\<close>: the integer \<open>n\<close> nearest to \<open>|x| * 10^f\<close>, the larger one of two,
  with the sign of \<open>x\<close> put back.
\<close>

definition toFixed :: "rat \<Rightarrow> nat \<Rightarrow> rat" where
  "toFixed x f =
     (let n = \<lfloor>\<bar>x\<bar> * 10 ^ f + 1 / 2\<rfloor>
      in if x < 0 then - (of_int n / 10 ^ f) else of_int n / 10 ^ f)"

subsection \<open>Strings\<close>

fun digit_char :: "nat \<Rightarrow> char" where
  "digit_char n = char_of (48 + n)"

fun show_nat :: "nat \<Rightarrow> string" where
  "show_nat n = (if n < 10 then [digit_char n] else show_nat (n div 10) @ [digit_char (n mod 10)])"

declare show_nat.simps [simp del]

text \<open>The string a template literal puts in for a number.\<close>

fun String_of :: "jsnum \<Rightarrow> string" where
  "String_of NaN = ''NaN''"
| "String_of (Fin i) = (if i < 0 then CHR ''-'' # show_nat (nat (- i)) else show_nat (nat i))"

fun join :: "string list \<Rightarrow> string \<Rightarrow> string" where
  "join [] sep = []"
| "join [x] sep = x"
| "join (x # y # ys) sep = x @ sep @ join (y # ys) sep"

text \<open>The class \<open>[#\s]\<close> of the regular expression, and \<open>toLowerCase\<close> on one character.\<close>

definition hash_or_space :: "char \<Rightarrow> bool" where
  "hash_or_space c = (c = CHR ''#'' \<or> (of_char c :: nat) \<in> {9, 10, 11, 12, 13, 32})"

definition lower_char :: "char \<Rightarrow> char" where
  "lower_char c =
     (let n = (of_char c :: nat) in if 65 \<le> n \<and> n \<le> 90 then char_of (n + 32) else c)"

text \<open>\<open>h.replace(/[#\s]+/g, "").toLowerCase()\<close>\<close>

definition normalize_tag :: "string \<Rightarrow> string" where
  "normalize_tag h = map lower_char (filter (\<lambda>c. \<not> hash_or_space c) h)"

subsection \<open>Arrays and Maps\<close>

text \<open>
  \<open>Array.prototype.sort\<close> with a comparator is stable: an insertion sort that puts an
  element before the first one it does not compare greater than, starting from the end
  of the array.
\<close>

fun sort_insert :: "('a \<Rightarrow> 'a \<Rightarrow> rat) \<Rightarrow> 'a \<Rightarrow> 'a list \<Rightarrow> 'a list" where
  "sort_insert cmp a [] = [a]"
| "sort_insert cmp a (b # bs) =
     (if cmp a b \<le> 0 then a # b # bs else b # sort_insert cmp a bs)"

definition Array_sort :: "('a \<Rightarrow> 'a \<Rightarrow> rat) \<Rightarrow> 'a list \<Rightarrow> 'a list" where
  "Array_sort cmp xs = foldr (sort_insert cmp) xs []"

fun Map_get :: "('k \<times> 'v) list \<Rightarrow> 'k \<Rightarrow> 'v option" where
  "Map_get [] k = None"
| "Map_get ((k', v) # m) k = (if k' = k then Some v else Map_get m k)"

fun Map_set :: "('k \<times> 'v) list \<Rightarrow> 'k \<Rightarrow> 'v \<Rightarrow> ('k \<times> 'v) list" where
  "Map_set [] k v = [(k, v)]"
| "Map_set ((k', v') # m) k v =
     (if k' = k then (k', v) # m else (k', v') # Map_set m k v)"

subsection \<open>Rows and aggregates\<close>

text \<open>
  A row, with the type of its \<open>views\<close> field open: \<open>jsval\<close> in the request, \<open>int\<close> once
  the filter has checked \<open>typeof r.views === "number"\<close>. A missing \<open>contentType\<close>,
  \<open>hashtags\<close> or tag is \<open>None\<close>.
\<close>

record 'v MetricRow =
  hour :: jsval
  contentType :: "string option"
  hashtags :: "string option list option"
  views :: 'v
  likes :: int
  comments :: int
  shares :: int

record HourAgg =
  hAgg_views :: int
  hAgg_posts :: int

record TypeAgg =
  tAgg_views :: int
  tAgg_posts :: int
  tAgg_likes :: int
  tAgg_comments :: int
  tAgg_shares :: int

record HashtagStat =
  stat_views :: int
  stat_uses :: int

record Maps =
  byHour :: "(jsnum \<times> HourAgg) list"
  byType :: "(string \<times> TypeAgg) list"
  hashtagStats :: "(string \<times> HashtagStat) list"

subsection \<open>safeRate and topN\<close>

definition safeRate :: "rat \<Rightarrow> rat \<Rightarrow> rat" where
  "safeRate num den = (if den > 0 then toFixed (num / den) 4 else 0)"

definition topN :: "('a \<times> rat) list \<Rightarrow> nat \<Rightarrow> 'a list" where
  "topN entries n = map fst (take n (Array_sort (\<lambda>a b. snd b - snd a) entries))"

subsection \<open>The aggregation loop\<close>

definition clamp_hour :: "'v MetricRow \<Rightarrow> jsnum" where
  "clamp_hour r =
     Math_max (Fin 0) (Math_min (Fin 23) (Number (if truthy (hour r) then hour r else JNum 0)))"

definition type_key :: "'v MetricRow \<Rightarrow> string" where
  "type_key r = (case contentType r of None \<Rightarrow> ''unknown'' | Some t \<Rightarrow> if t = [] then ''unknown'' else t)"

definition hour_step :: "int MetricRow \<Rightarrow> (jsnum \<times> HourAgg) list \<Rightarrow> (jsnum \<times> HourAgg) list" where
  "hour_step r m =
     (let hour = clamp_hour r;
          hAgg = (case Map_get m hour of None \<Rightarrow> \<lparr>hAgg_views = 0, hAgg_posts = 0\<rparr> | Some a \<Rightarrow> a);
          hAgg = hAgg\<lparr>hAgg_views := hAgg_views hAgg + views r\<rparr>;
          hAgg = hAgg\<lparr>hAgg_posts := hAgg_posts hAgg + 1\<rparr>
      in Map_set m hour hAgg)"

definition type_step :: "int MetricRow \<Rightarrow> (string \<times> TypeAgg) list \<Rightarrow> (string \<times> TypeAgg) list" where
  "type_step r m =
     (let tAgg = (case Map_get m (type_key r) of
                    None \<Rightarrow> \<lparr>tAgg_views = 0, tAgg_posts = 0, tAgg_likes = 0,
                             tAgg_comments = 0, tAgg_shares = 0\<rparr>
                  | Some a \<Rightarrow> a);
          tAgg = tAgg\<lparr>tAgg_views := tAgg_views tAgg + views r\<rparr>;
          tAgg = tAgg\<lparr>tAgg_likes := tAgg_likes tAgg + likes r\<rparr>;
          tAgg = tAgg\<lparr>tAgg_comments := tAgg_comments tAgg + comments r\<rparr>;
          tAgg = tAgg\<lparr>tAgg_shares := tAgg_shares tAgg + shares r\<rparr>;
          tAgg = tAgg\<lparr>tAgg_posts := tAgg_posts tAgg + 1\<rparr>
      in Map_set m (type_key r) tAgg)"

text \<open>One pass of the inner loop over \<open>r.hashtags || []\<close>, for a row with views \<open>v\<close>.\<close>

definition tag_key :: "string option \<Rightarrow> string" where
  "tag_key h = normalize_tag (case h of None \<Rightarrow> [] | Some s \<Rightarrow> s)"

definition tag_step :: "int \<Rightarrow> string option \<Rightarrow> (string \<times> HashtagStat) list \<Rightarrow> (string \<times> HashtagStat) list" where
  "tag_step v h m =
     (let key = tag_key h
      in if key = [] then m
         else let stat = (case Map_get m key of None \<Rightarrow> \<lparr>stat_views = 0, stat_uses = 0\<rparr> | Some s \<Rightarrow> s);
                  stat = stat\<lparr>stat_views := stat_views stat + v\<rparr>;
                  stat = stat\<lparr>stat_uses := stat_uses stat + 1\<rparr>
              in Map_set m key stat)"

definition row_tags :: "'v MetricRow \<Rightarrow> string option list" where
  "row_tags r = (case hashtags r of None \<Rightarrow> [] | Some hs \<Rightarrow> hs)"

definition row_step :: "int MetricRow \<Rightarrow> Maps \<Rightarrow> Maps" where
  "row_step r s =
     \<lparr>byHour = hour_step r (byHour s),
      byType = type_step r (byType s),
      hashtagStats = fold (tag_step (views r)) (row_tags r) (hashtagStats s)\<rparr>"

definition aggregate :: "int MetricRow list \<Rightarrow> Maps" where
  "aggregate rows = fold row_step rows \<lparr>byHour = [], byType = [], hashtagStats = []\<rparr>"

subsection \<open>Rankings\<close>

record TypeScore =
  ts_type :: string
  score :: rat
  viewPerPost :: rat
  engagementRate :: rat

definition type_score :: "string \<times> TypeAgg \<Rightarrow> TypeScore" where
  "type_score e =
     (case e of (type, v) \<Rightarrow>
        let engagement = tAgg_likes v + tAgg_comments v * 2 + tAgg_shares v * 3;
            engagementRate = safeRate (of_int engagement)
                               (of_int (if tAgg_views v \<noteq> 0 then tAgg_views v else tAgg_posts v));
            viewPerPost = safeRate (of_int (tAgg_views v)) (of_int (tAgg_posts v));
            score = viewPerPost * (7 / 10) + engagementRate * (3 / 10)
        in \<lparr>ts_type = type, score = toFixed score 6, viewPerPost = viewPerPost,
            engagementRate = engagementRate\<rparr>)"

definition bestHours_of :: "Maps \<Rightarrow> jsnum list" where
  "bestHours_of s =
     topN (map (\<lambda>(h, v). (h, safeRate (of_int (hAgg_views v)) (of_int (hAgg_posts v)))) (byHour s)) 3"

definition typeScores_of :: "Maps \<Rightarrow> TypeScore list" where
  "typeScores_of s = Array_sort (\<lambda>a b. score b - score a) (map type_score (byType s))"

definition topHashtags_of :: "Maps \<Rightarrow> string list" where
  "topHashtags_of s =
     topN (map (\<lambda>(k, v). (k, safeRate (of_int (stat_views v)) (of_int (stat_uses v)))) (hashtagStats s)) 15"

definition hashtagLeaders_of :: "Maps \<Rightarrow> (string \<times> HashtagStat) list" where
  "hashtagLeaders_of s =
     take 20 (Array_sort (\<lambda>a b. of_int (stat_views (snd b)) - of_int (stat_views (snd a))) (hashtagStats s))"

subsection \<open>Actions\<close>

definition top_line :: "string \<Rightarrow> string" where
  "top_line t = ''Double down on '' @ t @ '' content (top format).''"

definition hours_line :: "jsnum list \<Rightarrow> string" where
  "hours_line hs = ''Post at '' @ join (map (\<lambda>h. String_of h @ '':00'') hs) '', '' @ '' local time.''"

definition tags_line :: "string list \<Rightarrow> string" where
  "tags_line ts = ''Use 1-3 of: '' @ join (map (\<lambda>h. CHR ''#'' # h) (take 5 ts)) '' '' @ ''.''"

definition low_line :: "string \<Rightarrow> string" where
  "low_line t = ''De-prioritize '' @ t @ '' until performance improves.''"

definition plannedCadence :: "nat \<Rightarrow> int" where
  "plannedCadence n = min 14 (max 5 (Math_round (of_nat n * (6 / 10))))"

definition cadence_line :: "int \<Rightarrow> string" where
  "cadence_line c = ''Publish ~'' @ String_of (Fin c) @ '' posts next 7 days with 70/20/10: top/experimental/brand.''"

definition actions_of :: "TypeScore list \<Rightarrow> jsnum list \<Rightarrow> string list \<Rightarrow> nat \<Rightarrow> string list" where
  "actions_of typeScores bestHours topHashtags n =
     (let actions = [];
          actions = (case typeScores of [] \<Rightarrow> actions | t # _ \<Rightarrow> actions @ [top_line (ts_type t)]);
          actions = (if bestHours \<noteq> [] then actions @ [hours_line bestHours] else actions);
          actions = (if topHashtags \<noteq> [] then actions @ [tags_line topHashtags] else actions);
          lowTypes = drop (length typeScores - 1) typeScores;
          actions = (case lowTypes of [] \<Rightarrow> actions | t # _ \<Rightarrow> actions @ [low_line (ts_type t)])
      in actions @ [cadence_line (plannedCadence n)])"

subsection \<open>The handler\<close>

record Diagnostics =
  diag_byHour :: "jsnum \<rightharpoonup> HourAgg"
  diag_byType :: "string \<rightharpoonup> TypeAgg"
  diag_typeScores :: "TypeScore list"
  hashtagLeaders :: "(string \<times> HashtagStat) list"

text \<open>The JSON object of a response: a key that the object does not have is \<open>None\<close>.\<close>

record Response =
  status :: nat
  error :: "string option"
  bestHours :: "jsnum list option"
  topHashtags :: "string list option"
  actions :: "string list option"
  diagnostics :: "Diagnostics option"

definition analyse :: "int MetricRow list \<Rightarrow> Response" where
  "analyse rows =
     (let s = aggregate rows;
          bestHours = bestHours_of s;
          typeScores = typeScores_of s;
          topHashtags = topHashtags_of s;
          actions = actions_of typeScores bestHours topHashtags (length rows);
          diagnostics = \<lparr>diag_byHour = Map_get (byHour s), diag_byType = Map_get (byType s),
                         diag_typeScores = typeScores, hashtagLeaders = hashtagLeaders_of s\<rparr>
      in \<lparr>status = 200, error = None, bestHours = Some bestHours, topHashtags = Some topHashtags,
          actions = Some actions, diagnostics = Some diagnostics\<rparr>)"

definition error_response :: "string \<Rightarrow> nat \<Rightarrow> Response" where
  "error_response msg st =
     \<lparr>status = st, error = Some msg, bestHours = None, topHashtags = None, actions = None,
      diagnostics = None\<rparr>"

text \<open>A thrown \<open>Error\<close> with its message, and the \<open>catch\<close> clause of the handler.\<close>

datatype js_error = Error string

fun message :: "js_error \<Rightarrow> string" where
  "message (Error m) = m"

definition catch :: "js_error \<Rightarrow> Response" where
  "catch e = error_response (if message e \<noteq> [] then message e else ''Unexpected error'') 500"

text \<open>
  The request. \<open>req.json()\<close> either rejects or gives a body; the body is \<open>null\<close>
  (\<open>None\<close>) or an object whose \<open>rows\<close> is falsy (absent, \<open>null\<close>), an array of rows and
  \<open>null\<close>s, or a truthy value that is no array, on which the call of \<open>filter\<close> throws the
  given \<open>TypeError\<close>.
\<close>

datatype rows_field =
  RowsFalsy
| RowsArray "jsval MetricRow option list"
| RowsNotArray js_error

datatype request = JsonRejects js_error | JsonBody "rows_field option"

text \<open>The filter \<open>r && typeof r.views === "number"\<close> on one element.\<close>

fun numeric_views :: "jsval MetricRow option \<Rightarrow> int MetricRow option" where
  "numeric_views None = None"
| "numeric_views (Some r) =
     (case views r of
        JNum n \<Rightarrow> Some \<lparr>hour = hour r, contentType = contentType r, hashtags = hashtags r,
                        views = n, likes = likes r, comments = comments r, shares = shares r\<rparr>
      | _ \<Rightarrow> None)"

definition working_set :: "jsval MetricRow option list \<Rightarrow> int MetricRow list" where
  "working_set raw = List.map_filter numeric_views raw"

definition respond :: "int MetricRow list \<Rightarrow> Response" where
  "respond rows = (if rows = [] then error_response ''No data provided'' 400 else analyse rows)"

definition POST :: "request \<Rightarrow> Response" where
  "POST req =
     (case req of
        JsonRejects e \<Rightarrow> catch e
      | JsonBody body \<Rightarrow>
          (case (case body of None \<Rightarrow> RowsFalsy | Some f \<Rightarrow> f) of
             RowsFalsy \<Rightarrow> respond []
           | RowsArray raw \<Rightarrow> respond (working_set raw)
           | RowsNotArray e \<Rightarrow> catch e))"

subsection \<open>Notions used to state the properties\<close>

text \<open>
  The pattern \<open>const a = m.get(k) || d; ...; m.set(k, a)\<close> of the loop, with the update of
  the accumulator as a function, and the elements of a list in the order of their first
  occurrence.
\<close>

definition upsert :: "('k \<times> 'a) list \<Rightarrow> 'k \<Rightarrow> 'a \<Rightarrow> ('a \<Rightarrow> 'a) \<Rightarrow> ('k \<times> 'a) list" where
  "upsert m k d f = Map_set m k (f (case Map_get m k of None \<Rightarrow> d | Some a \<Rightarrow> a))"

definition first_seen :: "'a list \<Rightarrow> 'a list" where
  "first_seen xs = rev (remdups (rev xs))"

definition tag_uses :: "int MetricRow list \<Rightarrow> (string \<times> int) list" where
  "tag_uses rows =
     filter (\<lambda>p. fst p \<noteq> []) (concat (map (\<lambda>r. map (\<lambda>h. (tag_key h, views r)) (row_tags r)) rows))"

section \<open>Rounding and rates\<close>

lemma toFixed_grid: "\<exists>k::int. toFixed x f = of_int k / 10 ^ f"
proof (cases "x < 0")
  case True
  have "toFixed x f = of_int (- \<lfloor>\<bar>x\<bar> * 10 ^ f + 1 / 2\<rfloor>) / 10 ^ f"
    using True by (simp add: toFixed_def Let_def)
  then show ?thesis by blast
next
  case False
  have "toFixed x f = of_int \<lfloor>\<bar>x\<bar> * 10 ^ f + 1 / 2\<rfloor> / 10 ^ f"
    using False by (simp add: toFixed_def Let_def)
  then show ?thesis by blast
qed

lemma round_half_close:
  fixes y :: rat
  shows "\<bar>of_int \<lfloor>y + 1 / 2\<rfloor> - y\<bar> \<le> 1 / 2"
  by linarith

lemma floor_rat_numeral [simp]:
  "\<lfloor>numeral a / numeral b :: rat\<rfloor> = numeral a div numeral b"
  by (metis floor_divide_of_int_eq of_int_numeral)

lemma toFixed_abs: "\<bar>toFixed x f - x\<bar> = \<bar>of_int \<lfloor>\<bar>x\<bar> * 10 ^ f + 1 / 2\<rfloor> / 10 ^ f - \<bar>x\<bar>\<bar>"
  by (cases "x < 0") (simp_all add: toFixed_def Let_def abs_minus_commute)

lemma toFixed_close: "\<bar>toFixed x f - x\<bar> \<le> 1 / (2 * 10 ^ f)"
proof -
  define p :: rat where "p = 10 ^ f"
  define n where "n = \<lfloor>\<bar>x\<bar> * p + 1 / 2\<rfloor>"
  have p: "0 < p" by (simp add: p_def)
  have "\<bar>of_int n - \<bar>x\<bar> * p\<bar> \<le> 1 / 2"
    unfolding n_def by (rule round_half_close)
  then have "\<bar>of_int n - \<bar>x\<bar> * p\<bar> / p \<le> (1 / 2) / p"
    using p by (intro divide_right_mono) auto
  moreover have "\<bar>of_int n - \<bar>x\<bar> * p\<bar> / p = \<bar>of_int n / p - \<bar>x\<bar>\<bar>"
    using p by (simp add: abs_div_pos diff_divide_distrib)
  ultimately have "\<bar>of_int n / p - \<bar>x\<bar>\<bar> \<le> 1 / (2 * p)" by simp
  then show ?thesis by (simp add: toFixed_abs p_def n_def)
qed



section \<open>Maps in insertion order\<close>

lemma Map_get_set: "Map_get (Map_set m k v) k' = (if k' = k then Some v else Map_get m k')"
  by (induction m) auto

lemma Map_get_distinct: "distinct (map fst m) \<Longrightarrow> (k, v) \<in> set m \<Longrightarrow> Map_get m k = Some v"
  by (induction m) (auto simp: rev_image_eqI)

lemma keys_Map_set:
  "map fst (Map_set m k v) = (if k \<in> fst ` set m then map fst m else map fst m @ [k])"
  by (induction m) force+

lemma keys_upsert:
  "map fst (upsert m k d f) = (if k \<in> fst ` set m then map fst m else map fst m @ [k])"
  by (simp add: upsert_def keys_Map_set)

lemma Map_get_upsert:
  "Map_get (upsert m k d f) k' =
     (if k' = k then Some (f (case Map_get m k of None \<Rightarrow> d | Some a \<Rightarrow> a)) else Map_get m k')"
  by (simp add: upsert_def Map_get_set)

lemma sum_Map_set:
  fixes g :: "'a \<Rightarrow> int"
  shows "sum_list (map (\<lambda>e. g (snd e)) (Map_set m k v)) =
         sum_list (map (\<lambda>e. g (snd e)) m) + g v - (case Map_get m k of None \<Rightarrow> 0 | Some a \<Rightarrow> g a)"
  by (induction m) auto

lemma sum_upsert:
  fixes g :: "'a \<Rightarrow> int"
  assumes "g d = 0"
  shows "sum_list (map (\<lambda>e. g (snd e)) (upsert m k d f)) =
         sum_list (map (\<lambda>e. g (snd e)) m)
           + g (f (case Map_get m k of None \<Rightarrow> d | Some a \<Rightarrow> a))
           - g (case Map_get m k of None \<Rightarrow> d | Some a \<Rightarrow> a)"
  using assms by (simp add: upsert_def sum_Map_set split: option.splits)

text \<open>A loop of upserts groups its inputs by key.\<close>

lemma Map_get_fold_upsert:
  "Map_get (fold (\<lambda>x m. upsert m (key x) d (u x)) xs m) k =
     (if k \<in> key ` set xs
      then Some (fold u (filter (\<lambda>x. key x = k) xs) (case Map_get m k of None \<Rightarrow> d | Some a \<Rightarrow> a))
      else Map_get m k)"
proof (induction xs arbitrary: m)
  case Nil
  show ?case by simp
next
  case (Cons x xs)
  show ?case
  proof (cases "k \<in> key ` set xs")
    case True
    then show ?thesis by (auto simp: Cons.IH Map_get_upsert)
  next
    case False
    then have "filter (\<lambda>x. key x = k) xs = []"
      by (auto simp: filter_empty_conv)
    with False show ?thesis by (auto simp: Cons.IH Map_get_upsert)
  qed
qed

lemma first_seen_Cons: "first_seen (x # xs) = x # filter (\<lambda>y. y \<noteq> x) (first_seen xs)"
proof -
  have "remdups (ys @ [x]) = filter (\<lambda>y. y \<noteq> x) (remdups ys) @ [x]" for ys :: "'a list"
    by (induction ys) auto
  then show ?thesis
    by (simp add: first_seen_def rev_filter)
qed

lemma first_seen_Nil [simp]: "first_seen [] = []"
  by (simp add: first_seen_def)

lemma set_first_seen [simp]: "set (first_seen xs) = set xs"
  by (simp add: first_seen_def)

lemma distinct_first_seen [simp]: "distinct (first_seen xs)"
  by (simp add: first_seen_def)

lemma keys_fold_upsert:
  "map fst (fold (\<lambda>x m. upsert m (key x) d (u x)) xs m) =
     map fst m @ filter (\<lambda>k. k \<notin> fst ` set m) (first_seen (map key xs))"
proof (induction xs arbitrary: m)
  case Nil
  show ?case by simp
next
  case (Cons x xs)
  have set_keys: "fst ` set (upsert m (key x) d (u x)) = insert (key x) (fst ` set m)"
    using keys_upsert [of m "key x" d "u x"]
    by (metis (no_types, lifting) insert_absorb list.set_map set_append list.simps(15) Un_insert_right
        sup_bot.right_neutral set_simps(1) empty_set)
  show ?case
  proof (cases "key x \<in> fst ` set m")
    case True
    then show ?thesis
      using set_keys
      by (simp add: Cons.IH keys_upsert first_seen_Cons insert_absorb)
         (metis (mono_tags, lifting) filter_cong)
  next
    case False
    then show ?thesis
      using set_keys
      by (simp add: Cons.IH keys_upsert first_seen_Cons)
  qed
qed


section \<open>The comparator sort\<close>

lemma sort_insert_desc:
  "sort_insert (\<lambda>a b. f b - f a) x ys = insort_key (\<lambda>e. - f e) x ys"
  by (induction ys) auto

lemma Array_sort_desc:
  "Array_sort (\<lambda>a b. f b - f a) xs = sort_key (\<lambda>e. - f e) xs"
  by (induction xs) (simp_all add: Array_sort_def sort_insert_desc)

lemma Array_sort_sorted:
  "sorted_wrt (\<lambda>a b. f b \<le> f a) (Array_sort (\<lambda>a b. f b - f a) xs)"
proof -
  have "sorted (map (\<lambda>e. - f e) (sort_key (\<lambda>e. - f e) xs))"
    by (rule sorted_sort_key)
  then show ?thesis
    by (simp add: Array_sort_desc sorted_map)
qed

lemma Array_sort_stable:
  "filter (\<lambda>e. f e = q) (Array_sort (\<lambda>a b. f b - f a) xs) = filter (\<lambda>e. f e = q) xs"
  using sort_key_stable [of "\<lambda>e. - f e" "- q" xs]
  by (simp add: Array_sort_desc)

lemma Array_sort_mset: "mset (Array_sort (\<lambda>a b. f b - f a) xs) = mset xs"
  by (simp add: Array_sort_desc)

lemma Array_sort_set: "set (Array_sort (\<lambda>a b. f b - f a) xs) = set xs"
  by (simp add: Array_sort_desc)

lemma Array_sort_length: "length (Array_sort (\<lambda>a b. f b - f a) xs) = length xs"
  by (simp add: Array_sort_desc)

lemma Array_sort_Nil_iff: "Array_sort (\<lambda>a b. f b - f a) xs = [] \<longleftrightarrow> xs = []"
  using Array_sort_length [of f xs] by (metis length_0_conv)

lemma Array_sort_single: "Array_sort cmp [x] = [x]"
  by (simp add: Array_sort_def)

lemma topN_length: "length (topN entries n) = min n (length entries)"
  by (simp add: topN_def Array_sort_length min.commute)

section \<open>Hashtag normalization\<close>

lemma lower_char_idem: "lower_char (lower_char c) = lower_char c"
  by (auto simp: lower_char_def Let_def)

lemma hash_or_space_lower: "hash_or_space (lower_char c) = hash_or_space c"
proof (cases "65 \<le> (of_char c :: nat) \<and> (of_char c :: nat) \<le> 90")
  case True
  define u where "u = char_of (of_char c + 32 :: nat)"
  have code: "(of_char u :: nat) = of_char c + 32"
    using True by (simp add: u_def)
  have c: "\<not> hash_or_space c"
    using True by (auto simp: hash_or_space_def)
  have "u \<noteq> CHR ''#''"
  proof
    assume "u = CHR ''#''"
    then have "(of_char u :: nat) = of_char CHR ''#''" by simp
    with code True show False by simp
  qed
  moreover have "(of_char u :: nat) \<notin> {9, 10, 11, 12, 13, 32}"
    using code True by auto
  ultimately have "\<not> hash_or_space u"
    by (simp add: hash_or_space_def)
  with True c show ?thesis
    by (simp add: lower_char_def Let_def u_def)
next
  case False
  then show ?thesis by (auto simp: lower_char_def Let_def)
qed

lemma normalize_alt: "normalize_tag h = filter (\<lambda>c. \<not> hash_or_space c) (map lower_char h)"
  by (simp add: normalize_tag_def filter_map comp_def hash_or_space_lower)

lemma normalize_idem: "normalize_tag (normalize_tag h) = normalize_tag h"
proof -
  have "normalize_tag (normalize_tag h) = map lower_char (map lower_char (filter (\<lambda>c. \<not> hash_or_space c) h))"
    by (simp add: normalize_tag_def filter_map comp_def hash_or_space_lower)
  then show ?thesis
    by (simp add: normalize_tag_def lower_char_idem comp_def)
qed

lemma normalize_case: "map lower_char a = map lower_char b \<Longrightarrow> normalize_tag a = normalize_tag b"
  by (simp add: normalize_alt)

lemma normalize_strip:
  "\<forall>c \<in> set pre \<union> set post. hash_or_space c \<Longrightarrow> normalize_tag (pre @ t @ post) = normalize_tag t"
  by (simp add: normalize_tag_def)

lemma normalize_clean: "c \<in> set (normalize_tag h) \<Longrightarrow> \<not> hash_or_space c"
  by (auto simp: normalize_alt)

lemma tag_step_upsert:
  "tag_step v h m =
     (if tag_key h = [] then m
      else upsert m (tag_key h) \<lparr>stat_views = 0, stat_uses = 0\<rparr>
             (\<lambda>a. a\<lparr>stat_views := stat_views a + v, stat_uses := stat_uses a + 1\<rparr>))"
  by (simp add: tag_step_def upsert_def Let_def split: option.splits)

section \<open>The hour bucket of a row\<close>

lemma hour_step_upsert:
  "hour_step r m = upsert m (clamp_hour r) \<lparr>hAgg_views = 0, hAgg_posts = 0\<rparr>
     (\<lambda>a. a\<lparr>hAgg_views := hAgg_views a + views r, hAgg_posts := hAgg_posts a + 1\<rparr>)"
  by (simp add: hour_step_def upsert_def Let_def split: option.splits)

lemma clamp_hour_JNum: "hour r = JNum h \<Longrightarrow> clamp_hour r = Fin (max 0 (min 23 h))"
  by (simp add: clamp_hour_def)

lemma clamp_hour_range: "hour r \<noteq> JEmptyObject \<Longrightarrow> \<exists>b. clamp_hour r = Fin b \<and> 0 \<le> b \<and> b \<le> 23"
  by (cases "hour r") (auto simp: clamp_hour_def)




section \<open>The loop groups the rows\<close>

lemma type_step_upsert:
  "type_step r m = upsert m (type_key r)
     \<lparr>tAgg_views = 0, tAgg_posts = 0, tAgg_likes = 0, tAgg_comments = 0, tAgg_shares = 0\<rparr>
     (\<lambda>a. a\<lparr>tAgg_views := tAgg_views a + views r, tAgg_likes := tAgg_likes a + likes r,
            tAgg_comments := tAgg_comments a + comments r, tAgg_shares := tAgg_shares a + shares r,
            tAgg_posts := tAgg_posts a + 1\<rparr>)"
  by (simp add: type_step_def upsert_def Let_def split: option.splits)

lemma fold_row_step:
  "fold row_step rows s =
     \<lparr>byHour = fold hour_step rows (byHour s),
      byType = fold type_step rows (byType s),
      hashtagStats = fold (\<lambda>r. fold (tag_step (views r)) (row_tags r)) rows (hashtagStats s)\<rparr>"
  by (induction rows arbitrary: s) (simp_all add: row_step_def)

lemma byHour_aggregate: "byHour (aggregate rows) = fold hour_step rows []"
  by (simp add: aggregate_def fold_row_step)

lemma byType_aggregate: "byType (aggregate rows) = fold type_step rows []"
  by (simp add: aggregate_def fold_row_step)

lemma hashtagStats_aggregate:
  "hashtagStats (aggregate rows) = fold (\<lambda>r. fold (tag_step (views r)) (row_tags r)) rows []"
  by (simp add: aggregate_def fold_row_step)

lemma fold_tag_step:
  "fold (tag_step v) hs m =
     fold (\<lambda>p m. upsert m (fst p) \<lparr>stat_views = 0, stat_uses = 0\<rparr>
                   (\<lambda>a. a\<lparr>stat_views := stat_views a + snd p, stat_uses := stat_uses a + 1\<rparr>))
          (filter (\<lambda>p. fst p \<noteq> []) (map (\<lambda>h. (tag_key h, v)) hs)) m"
  by (induction hs arbitrary: m) (simp_all add: tag_step_upsert)

lemma fold_rows_tag_step:
  "fold (\<lambda>r. fold (tag_step (views r)) (row_tags r)) rows m =
     fold (\<lambda>p m. upsert m (fst p) \<lparr>stat_views = 0, stat_uses = 0\<rparr>
                   (\<lambda>a. a\<lparr>stat_views := stat_views a + snd p, stat_uses := stat_uses a + 1\<rparr>))
          (tag_uses rows) m"
  by (induction rows arbitrary: m) (simp_all add: tag_uses_def fold_tag_step)

lemma fold_stat:
  "fold (\<lambda>p a. a\<lparr>stat_views := stat_views a + snd p, stat_uses := stat_uses a + 1\<rparr>) ps a =
     \<lparr>stat_views = stat_views a + sum_list (map snd ps), stat_uses = stat_uses a + int (length ps)\<rparr>"
  by (induction ps arbitrary: a) simp_all

lemma fold_hAgg:
  "fold (\<lambda>r a. a\<lparr>hAgg_views := hAgg_views a + views r, hAgg_posts := hAgg_posts a + 1\<rparr>) rs a =
     \<lparr>hAgg_views = hAgg_views a + sum_list (map views rs), hAgg_posts = hAgg_posts a + int (length rs)\<rparr>"
  by (induction rs arbitrary: a) simp_all

lemma fold_tAgg:
  "fold (\<lambda>r a. a\<lparr>tAgg_views := tAgg_views a + views r, tAgg_likes := tAgg_likes a + likes r,
            tAgg_comments := tAgg_comments a + comments r, tAgg_shares := tAgg_shares a + shares r,
            tAgg_posts := tAgg_posts a + 1\<rparr>) rs a =
     \<lparr>tAgg_views = tAgg_views a + sum_list (map views rs),
      tAgg_posts = tAgg_posts a + int (length rs),
      tAgg_likes = tAgg_likes a + sum_list (map likes rs),
      tAgg_comments = tAgg_comments a + sum_list (map comments rs),
      tAgg_shares = tAgg_shares a + sum_list (map shares rs)\<rparr>"
  by (induction rs arbitrary: a) simp_all

text \<open>The three maps after the loop\<close>

lemma byHour_get:
  "Map_get (byHour (aggregate rows)) k =
     (if k \<in> clamp_hour ` set rows
      then Some \<lparr>hAgg_views = sum_list (map views (filter (\<lambda>r. clamp_hour r = k) rows)),
                 hAgg_posts = int (length (filter (\<lambda>r. clamp_hour r = k) rows))\<rparr>
      else None)"
proof -
  have step: "hour_step = (\<lambda>r m. upsert m (clamp_hour r) \<lparr>hAgg_views = 0, hAgg_posts = 0\<rparr>
     (\<lambda>a. a\<lparr>hAgg_views := hAgg_views a + views r, hAgg_posts := hAgg_posts a + 1\<rparr>))"
    by (intro ext) (rule hour_step_upsert)
  show ?thesis
    unfolding byHour_aggregate step by (simp add: Map_get_fold_upsert fold_hAgg)
qed

lemma byHour_keys: "map fst (byHour (aggregate rows)) = first_seen (map clamp_hour rows)"
proof -
  have step: "hour_step = (\<lambda>r m. upsert m (clamp_hour r) \<lparr>hAgg_views = 0, hAgg_posts = 0\<rparr>
     (\<lambda>a. a\<lparr>hAgg_views := hAgg_views a + views r, hAgg_posts := hAgg_posts a + 1\<rparr>))"
    by (intro ext) (rule hour_step_upsert)
  show ?thesis
    unfolding byHour_aggregate step by (simp add: keys_fold_upsert)
qed

lemma byType_get:
  "Map_get (byType (aggregate rows)) k =
     (if k \<in> type_key ` set rows
      then Some \<lparr>tAgg_views = sum_list (map views (filter (\<lambda>r. type_key r = k) rows)),
                 tAgg_posts = int (length (filter (\<lambda>r. type_key r = k) rows)),
                 tAgg_likes = sum_list (map likes (filter (\<lambda>r. type_key r = k) rows)),
                 tAgg_comments = sum_list (map comments (filter (\<lambda>r. type_key r = k) rows)),
                 tAgg_shares = sum_list (map shares (filter (\<lambda>r. type_key r = k) rows))\<rparr>
      else None)"
proof -
  have step: "type_step = (\<lambda>r m. upsert m (type_key r)
     \<lparr>tAgg_views = 0, tAgg_posts = 0, tAgg_likes = 0, tAgg_comments = 0, tAgg_shares = 0\<rparr>
     (\<lambda>a. a\<lparr>tAgg_views := tAgg_views a + views r, tAgg_likes := tAgg_likes a + likes r,
            tAgg_comments := tAgg_comments a + comments r, tAgg_shares := tAgg_shares a + shares r,
            tAgg_posts := tAgg_posts a + 1\<rparr>))"
    by (intro ext) (rule type_step_upsert)
  show ?thesis
    unfolding byType_aggregate step by (simp add: Map_get_fold_upsert fold_tAgg)
qed

lemma byType_keys: "map fst (byType (aggregate rows)) = first_seen (map type_key rows)"
proof -
  have step: "type_step = (\<lambda>r m. upsert m (type_key r)
     \<lparr>tAgg_views = 0, tAgg_posts = 0, tAgg_likes = 0, tAgg_comments = 0, tAgg_shares = 0\<rparr>
     (\<lambda>a. a\<lparr>tAgg_views := tAgg_views a + views r, tAgg_likes := tAgg_likes a + likes r,
            tAgg_comments := tAgg_comments a + comments r, tAgg_shares := tAgg_shares a + shares r,
            tAgg_posts := tAgg_posts a + 1\<rparr>))"
    by (intro ext) (rule type_step_upsert)
  show ?thesis
    unfolding byType_aggregate step by (simp add: keys_fold_upsert)
qed

lemma hashtagStats_get:
  "Map_get (hashtagStats (aggregate rows)) k =
     (if k \<in> fst ` set (tag_uses rows)
      then Some \<lparr>stat_views = sum_list (map snd (filter (\<lambda>p. fst p = k) (tag_uses rows))),
                 stat_uses = int (length (filter (\<lambda>p. fst p = k) (tag_uses rows)))\<rparr>
      else None)"
  by (simp add: hashtagStats_aggregate fold_rows_tag_step Map_get_fold_upsert fold_stat)

lemma hashtagStats_keys:
  "map fst (hashtagStats (aggregate rows)) = first_seen (map fst (tag_uses rows))"
  by (simp add: hashtagStats_aggregate fold_rows_tag_step keys_fold_upsert)

section \<open>Hashtag keys and buckets\<close>



section \<open>Totals of the buckets\<close>

lemma sum_fold_upsert:
  fixes g :: "'a \<Rightarrow> int"
  assumes "g d = 0" and "\<And>x a. g (u x a) = g a + w x"
  shows "sum_list (map (\<lambda>e. g (snd e)) (fold (\<lambda>x m. upsert m (key x) d (u x)) xs m)) =
         sum_list (map (\<lambda>e. g (snd e)) m) + sum_list (map w xs)"
proof (induction xs arbitrary: m)
  case Nil
  show ?case by simp
next
  case (Cons x xs)
  show ?case
    using assms(1) by (simp add: Cons.IH sum_upsert [where g = g and d = d] assms(2))
qed

lemma hour_step_fun:
  "hour_step = (\<lambda>r m. upsert m (clamp_hour r) \<lparr>hAgg_views = 0, hAgg_posts = 0\<rparr>
     (\<lambda>a. a\<lparr>hAgg_views := hAgg_views a + views r, hAgg_posts := hAgg_posts a + 1\<rparr>))"
  by (intro ext) (rule hour_step_upsert)

lemma type_step_fun:
  "type_step = (\<lambda>r m. upsert m (type_key r)
     \<lparr>tAgg_views = 0, tAgg_posts = 0, tAgg_likes = 0, tAgg_comments = 0, tAgg_shares = 0\<rparr>
     (\<lambda>a. a\<lparr>tAgg_views := tAgg_views a + views r, tAgg_likes := tAgg_likes a + likes r,
            tAgg_comments := tAgg_comments a + comments r, tAgg_shares := tAgg_shares a + shares r,
            tAgg_posts := tAgg_posts a + 1\<rparr>))"
  by (intro ext) (rule type_step_upsert)

lemma byHour_posts: "sum_list (map (\<lambda>e. hAgg_posts (snd e)) (byHour (aggregate rows))) = int (length rows)"
  unfolding byHour_aggregate hour_step_fun
  by (subst sum_fold_upsert [where w = "\<lambda>r. 1"]) (simp_all add: sum_list_triv)

lemma byHour_views: "sum_list (map (\<lambda>e. hAgg_views (snd e)) (byHour (aggregate rows))) = sum_list (map views rows)"
  unfolding byHour_aggregate hour_step_fun
  by (subst sum_fold_upsert [where w = views]) simp_all

lemma byType_posts: "sum_list (map (\<lambda>e. tAgg_posts (snd e)) (byType (aggregate rows))) = int (length rows)"
  unfolding byType_aggregate type_step_fun
  by (subst sum_fold_upsert [where w = "\<lambda>r. 1"]) (simp_all add: sum_list_triv)

lemma byType_views: "sum_list (map (\<lambda>e. tAgg_views (snd e)) (byType (aggregate rows))) = sum_list (map views rows)"
  unfolding byType_aggregate type_step_fun
  by (subst sum_fold_upsert [where w = views]) simp_all

lemma hashtagStats_uses:
  "sum_list (map (\<lambda>e. stat_uses (snd e)) (hashtagStats (aggregate rows))) = int (length (tag_uses rows))"
  unfolding hashtagStats_aggregate fold_rows_tag_step
  by (subst sum_fold_upsert [where w = "\<lambda>p. 1"]) (simp_all add: sum_list_triv)

lemma hashtagStats_views:
  "sum_list (map (\<lambda>e. stat_views (snd e)) (hashtagStats (aggregate rows))) = sum_list (map snd (tag_uses rows))"
  unfolding hashtagStats_aggregate fold_rows_tag_step
  by (subst sum_fold_upsert [where w = snd]) simp_all



section \<open>Responses of the handler\<close>

lemma numeric_views_Some:
  "numeric_views x \<noteq> None \<longleftrightarrow> (\<exists>r n. x = Some r \<and> views r = JNum n)"
  by (cases x) (auto split: jsval.splits)

lemma working_set_Nil: "working_set raw = [] \<longleftrightarrow> (\<forall>x \<in> set raw. numeric_views x = None)"
  by (induction raw) (auto simp: working_set_def List.map_filter_simps split: option.splits)

lemma working_set_drop:
  "working_set raw = working_set (filter (\<lambda>x. numeric_views x \<noteq> None) raw)"
  by (induction raw) (auto simp: working_set_def List.map_filter_simps split: option.splits)

lemma working_set_length:
  "length (working_set raw) = length (filter (\<lambda>x. numeric_views x \<noteq> None) raw)"
  by (induction raw) (auto simp: working_set_def List.map_filter_simps split: option.splits)

lemma analyse_fields:
  "status (analyse rows) = 200 \<and> error (analyse rows) = None \<and> bestHours (analyse rows) \<noteq> None
   \<and> topHashtags (analyse rows) \<noteq> None \<and> actions (analyse rows) \<noteq> None
   \<and> diagnostics (analyse rows) \<noteq> None"
  by (simp add: analyse_def Let_def)

lemma catch_fields:
  "status (catch e) = 500 \<and> error (catch e) \<noteq> None \<and> error (catch e) \<noteq> Some []
   \<and> bestHours (catch e) = None \<and> topHashtags (catch e) = None \<and> actions (catch e) = None
   \<and> diagnostics (catch e) = None"
  by (simp add: catch_def error_response_def)

lemma POST_cases:
  "(\<exists>e. (req = JsonRejects e \<or> req = JsonBody (Some (RowsNotArray e))) \<and> POST req = catch e)
   \<or> ((req = JsonBody None \<or> req = JsonBody (Some RowsFalsy)) \<and> POST req = error_response ''No data provided'' 400)
   \<or> (\<exists>raw. req = JsonBody (Some (RowsArray raw)) \<and> working_set raw = []
         \<and> POST req = error_response ''No data provided'' 400)
   \<or> (\<exists>raw. req = JsonBody (Some (RowsArray raw)) \<and> working_set raw \<noteq> []
         \<and> POST req = analyse (working_set raw))"
  by (auto simp: POST_def respond_def split: request.splits option.splits rows_field.splits)

lemma POST_shape:
  "(error (POST req) = None \<and> status (POST req) = 200 \<and> bestHours (POST req) \<noteq> None
      \<and> topHashtags (POST req) \<noteq> None \<and> actions (POST req) \<noteq> None
      \<and> diagnostics (POST req) \<noteq> None)
   \<or> (error (POST req) \<noteq> None \<and> error (POST req) \<noteq> Some []
      \<and> (status (POST req) = 400 \<or> status (POST req) = 500)
      \<and> bestHours (POST req) = None \<and> topHashtags (POST req) = None
      \<and> actions (POST req) = None \<and> diagnostics (POST req) = None)"
proof -
  have r: "respond rows = analyse rows \<or> respond rows = error_response ''No data provided'' 400" for rows
    by (simp add: respond_def)
  have ok: "P (analyse rows) \<Longrightarrow> P (error_response ''No data provided'' 400) \<Longrightarrow> P (respond rows)"
    for P rows using r [of rows] by auto
  let ?P = "\<lambda>x. (error x = None \<and> status x = 200 \<and> bestHours x \<noteq> None
      \<and> topHashtags x \<noteq> None \<and> actions x \<noteq> None \<and> diagnostics x \<noteq> None)
   \<or> (error x \<noteq> None \<and> error x \<noteq> Some [] \<and> (status x = 400 \<or> status x = 500)
      \<and> bestHours x = None \<and> topHashtags x = None \<and> actions x = None \<and> diagnostics x = None)"
  have A: "?P (analyse rows)" for rows
    using analyse_fields [of rows] by simp
  have B: "?P (error_response ''No data provided'' 400)"
    by (simp add: error_response_def)
  have C: "?P (catch e)" for e
    using catch_fields [of e] by simp
  have R: "?P (respond rows)" for rows
    by (rule ok [of ?P, OF A B])
  show ?thesis
  proof (cases req)
    case (JsonRejects e)
    then show ?thesis using C [of e] by (simp add: POST_def)
  next
    case (JsonBody body)
    show ?thesis
    proof (cases body)
      case None
      with JsonBody show ?thesis using R [of "[]"] by (simp add: POST_def)
    next
      case (Some f)
      with JsonBody show ?thesis
        using R [of "[]"] R C by (cases f) (simp_all add: POST_def)
    qed
  qed
qed



section \<open>The action lines\<close>

lemma first_seen_Nil_iff [simp]: "first_seen xs = [] \<longleftrightarrow> xs = []"
  by (simp add: first_seen_def)

lemma slice_last: "xs \<noteq> [] \<Longrightarrow> drop (length xs - 1) xs = [last xs]"
  by (induction xs) (auto simp: drop_Cons')

lemma actions_of_lines:
  "actions_of ts bh th n =
     (if ts = [] then [] else [top_line (ts_type (hd ts))])
     @ (if bh = [] then [] else [hours_line bh])
     @ (if th = [] then [] else [tags_line th])
     @ (if ts = [] then [] else [low_line (ts_type (last ts))])
     @ [cadence_line (plannedCadence n)]"
proof (cases ts)
  case Nil
  then show ?thesis by (simp add: actions_of_def)
next
  case (Cons t ts')
  then have "drop (length ts - 1) ts = [last ts]"
    using slice_last [of ts] by simp
  with Cons show ?thesis
    unfolding actions_of_def Let_def by simp
qed

lemma Math_round_cadence: "Math_round (of_nat n * (6 / 10)) = (6 * int n + 5) div 10"
proof -
  have "(of_nat n * (6 / 10) + 1 / 2 :: rat) = of_int (6 * int n + 5) / of_int 10"
    by (simp add: field_simps)
  then show ?thesis
    unfolding Math_round_def by (simp only: floor_divide_of_int_eq)
qed

lemma plannedCadence_div: "plannedCadence n = min 14 (max 5 ((6 * int n + 5) div 10))"
  unfolding plannedCadence_def Math_round_cadence ..

lemma plannedCadence_bounds: "5 \<le> plannedCadence n \<and> plannedCadence n \<le> 14"
  by (simp add: plannedCadence_def)

lemma typeScores_sorted: "sorted_wrt (\<lambda>a b. score b \<le> score a) (typeScores_of s)"
  unfolding typeScores_of_def by (rule Array_sort_sorted)

lemma typeScores_Nil: "typeScores_of (aggregate rows) = [] \<longleftrightarrow> rows = []"
proof -
  have "typeScores_of (aggregate rows) = [] \<longleftrightarrow> map fst (byType (aggregate rows)) = []"
    by (simp add: typeScores_of_def Array_sort_Nil_iff)
  also have "\<dots> \<longleftrightarrow> rows = []"
    unfolding byType_keys by simp
  finally show ?thesis .
qed

lemma bestHours_Nil: "bestHours_of (aggregate rows) = [] \<longleftrightarrow> rows = []"
proof -
  have "length (bestHours_of (aggregate rows)) = min 3 (length (map fst (byHour (aggregate rows))))"
    by (simp add: bestHours_of_def topN_length)
  then have "length (bestHours_of (aggregate rows)) = min 3 (length (first_seen (map clamp_hour rows)))"
    unfolding byHour_keys .
  then have "length (bestHours_of (aggregate rows)) = 0 \<longleftrightarrow> length (first_seen (map clamp_hour rows)) = 0"
    by linarith
  then show ?thesis by simp
qed

lemma analyse_actions:
  "actions (analyse rows) =
     Some (actions_of (typeScores_of (aggregate rows)) (bestHours_of (aggregate rows))
             (topHashtags_of (aggregate rows)) (length rows))"
  by (simp add: analyse_def Let_def)

text \<open>
  Claim C4. The actions are, in this order: the top-format line for the first entry of
  \<open>typeScores\<close> if there is one, the hours line if \<open>bestHours\<close> is not empty, the
  hashtag line built from the first 5 of \<open>topHashtags\<close> if that is not empty, the
  de-prioritize line for the last entry of the score-descending \<open>typeScores\<close> if there is
  one, and always, at the end, the cadence line with
  \<open>plannedCadence = min(14, max(5, round(rowCount * 0.6)))\<close>, which is 5 for 1 row, 6 for
  10 rows and 14 for 100 rows. For a working set, which is never empty, the first, second
  and fourth lines are always there.
\<close>

theorem actions_order:
  "actions (analyse rows) = Some
     ((if typeScores_of (aggregate rows) = [] then []
       else [''Double down on '' @ ts_type (hd (typeScores_of (aggregate rows))) @ '' content (top format).''])
      @ (if bestHours_of (aggregate rows) = [] then []
         else [''Post at '' @ join (map (\<lambda>h. String_of h @ '':00'') (bestHours_of (aggregate rows))) '', ''
               @ '' local time.''])
      @ (if topHashtags_of (aggregate rows) = [] then []
         else [''Use 1-3 of: ''
               @ join (map (\<lambda>h. CHR ''#'' # h) (take 5 (topHashtags_of (aggregate rows)))) '' '' @ ''.''])
      @ (if typeScores_of (aggregate rows) = [] then []
         else [''De-prioritize '' @ ts_type (last (typeScores_of (aggregate rows)))
               @ '' until performance improves.''])
      @ [''Publish ~'' @ String_of (Fin (plannedCadence (length rows)))
         @ '' posts next 7 days with 70/20/10: top/experimental/brand.''])
   \<and> (rows \<noteq> [] \<longrightarrow> typeScores_of (aggregate rows) \<noteq> [] \<and> bestHours_of (aggregate rows) \<noteq> [])
   \<and> sorted_wrt (\<lambda>a b. score b \<le> score a) (typeScores_of (aggregate rows))
   \<and> plannedCadence n = min 14 (max 5 (Math_round (of_nat n * (6 / 10))))
   \<and> plannedCadence n = min 14 (max 5 ((6 * int n + 5) div 10))
   \<and> 5 \<le> plannedCadence n \<and> plannedCadence n \<le> 14
   \<and> plannedCadence 1 = 5 \<and> plannedCadence 10 = 6 \<and> plannedCadence 100 = 14"
proof -
  have lines: "actions (analyse rows) = Some
     ((if typeScores_of (aggregate rows) = [] then []
       else [''Double down on '' @ ts_type (hd (typeScores_of (aggregate rows))) @ '' content (top format).''])
      @ (if bestHours_of (aggregate rows) = [] then []
         else [''Post at '' @ join (map (\<lambda>h. String_of h @ '':00'') (bestHours_of (aggregate rows))) '', ''
               @ '' local time.''])
      @ (if topHashtags_of (aggregate rows) = [] then []
         else [''Use 1-3 of: ''
               @ join (map (\<lambda>h. CHR ''#'' # h) (take 5 (topHashtags_of (aggregate rows)))) '' '' @ ''.''])
      @ (if typeScores_of (aggregate rows) = [] then []
         else [''De-prioritize '' @ ts_type (last (typeScores_of (aggregate rows)))
               @ '' until performance improves.''])
      @ [''Publish ~'' @ String_of (Fin (plannedCadence (length rows)))
         @ '' posts next 7 days with 70/20/10: top/experimental/brand.''])"
    unfolding analyse_actions actions_of_lines top_line_def hours_line_def tags_line_def
      low_line_def cadence_line_def ..
  have present: "rows \<noteq> [] \<longrightarrow> typeScores_of (aggregate rows) \<noteq> [] \<and> bestHours_of (aggregate rows) \<noteq> []"
    by (simp add: typeScores_Nil bestHours_Nil)
  have vals: "plannedCadence 1 = 5 \<and> plannedCadence 10 = 6 \<and> plannedCadence 100 = 14"
    using plannedCadence_div [of 1] plannedCadence_div [of 10] plannedCadence_div [of 100]
    by simp
  have cad: "plannedCadence n = min 14 (max 5 (Math_round (of_nat n * (6 / 10))))"
    by (rule plannedCadence_def)
  show ?thesis
    using lines present typeScores_sorted [of "aggregate rows"] cad plannedCadence_div [of n]
      plannedCadence_bounds [of n] vals
    by (intro conjI) blast+
qed

theorem actions_order_witness:
  "[\<lparr>hour = JNum 18, contentType = Some ''short'', hashtags = Some [Some ''ai'', Some ''productivity''],
      views = 12000 :: int, likes = 1300, comments = 120, shares = 80\<rparr>,
    \<lparr>hour = JNum 12, contentType = Some ''short'', hashtags = Some [Some ''editing''],
      views = 6000, likes = 430, comments = 32, shares = 20\<rparr>] \<noteq> []
   \<and> actions (analyse
      [\<lparr>hour = JNum 18, contentType = Some ''short'', hashtags = Some [Some ''ai'', Some ''productivity''],
         views = 12000, likes = 1300, comments = 120, shares = 80\<rparr>,
       \<lparr>hour = JNum 12, contentType = Some ''short'', hashtags = Some [Some ''editing''],
         views = 6000, likes = 430, comments = 32, shares = 20\<rparr>])
     = Some [''Double down on short content (top format).'',
             ''Post at 18:00, 12:00 local time.'',
             ''Use 1-3 of: #ai #productivity #editing.'',
             ''De-prioritize short until performance improves.'',
             ''Publish ~5 posts next 7 days with 70/20/10: top/experimental/brand.'']"
proof -
  let ?rows = "[\<lparr>hour = JNum 18, contentType = Some ''short'', hashtags = Some [Some ''ai'', Some ''productivity''],
         views = 12000 :: int, likes = 1300, comments = 120, shares = 80\<rparr>,
       \<lparr>hour = JNum 12, contentType = Some ''short'', hashtags = Some [Some ''editing''],
         views = 6000, likes = 430, comments = 32, shares = 20\<rparr>]"
  have ts: "typeScores_of (aggregate ?rows) =
      [\<lparr>ts_type = ''short'', score = 630003891 / 100000, viewPerPost = 9000,
        engagementRate = 1297 / 10000\<rparr>]"
    by code_simp
  have bh: "bestHours_of (aggregate ?rows) = [Fin 18, Fin 12]"
    by code_simp
  have th: "topHashtags_of (aggregate ?rows) = [''ai'', ''productivity'', ''editing'']"
    by code_simp
  have s18: "show_nat 18 = ''18''" and s12: "show_nat 12 = ''12''"
    and s5: "show_nat 5 = ''5''"
    by code_simp+
  have pc: "plannedCadence (length ?rows) = 5"
    by code_simp
  show ?thesis
    using actions_order [of ?rows 2] unfolding ts bh th pc
    by (simp add: s18 s12 s5)
qed

lemma single_key: "distinct xs \<Longrightarrow> set xs = {T} \<Longrightarrow> xs = [T]"
  by (cases xs) (auto simp: subset_singleton_iff)

text \<open>
  Claim C10. When the working set has exactly one distinct content type \<open>T\<close> (after the
  substitution of \<open>unknown\<close>), \<open>T\<close> is the only entry of \<open>typeScores\<close>, first and last at
  once, so the actions hold both the top-format line and the de-prioritize line for
  \<open>T\<close>.
\<close>

theorem single_type_actions:
  assumes "type_key ` set rows = {T}"
  shows "\<exists>as. actions (analyse rows) = Some as
           \<and> map ts_type (typeScores_of (aggregate rows)) = [T]
           \<and> hd as = ''Double down on '' @ T @ '' content (top format).''
           \<and> ''Double down on '' @ T @ '' content (top format).'' \<in> set as
           \<and> ''De-prioritize '' @ T @ '' until performance improves.'' \<in> set as"
proof -
  have "map fst (byType (aggregate rows)) = [T]"
    unfolding byType_keys using assms by (intro single_key) simp_all
  then obtain v where bt: "byType (aggregate rows) = [(T, v)]"
    by (cases "byType (aggregate rows)") auto
  have ts: "typeScores_of (aggregate rows) = [type_score (T, v)]"
    by (simp add: typeScores_of_def bt Array_sort_single)
  have ty: "ts_type (type_score (T, v)) = T"
    by (simp add: type_score_def Let_def)
  show ?thesis
    unfolding analyse_actions actions_of_lines ts
    by (simp add: ty top_line_def low_line_def)
qed

theorem single_type_actions_witness:
  "type_key ` set [\<lparr>hour = JNum 18, contentType = Some ''short'', hashtags = None,
                    views = 10 :: int, likes = 1, comments = 0, shares = 0\<rparr>,
                   \<lparr>hour = JNum 12, contentType = Some ''short'', hashtags = None,
                    views = 5, likes = 0, comments = 0, shares = 0\<rparr>] = {''short''}
   \<and> (\<exists>as. actions (analyse [\<lparr>hour = JNum 18, contentType = Some ''short'', hashtags = None,
                    views = 10, likes = 1, comments = 0, shares = 0\<rparr>,
                   \<lparr>hour = JNum 12, contentType = Some ''short'', hashtags = None,
                    views = 5, likes = 0, comments = 0, shares = 0\<rparr>]) = Some as
          \<and> ''Double down on short content (top format).'' \<in> set as
          \<and> ''De-prioritize short until performance improves.'' \<in> set as)"
proof -
  let ?rows = "[\<lparr>hour = JNum 18, contentType = Some ''short'', hashtags = None,
                    views = 10 :: int, likes = 1, comments = 0, shares = 0\<rparr>,
                   \<lparr>hour = JNum 12, contentType = Some ''short'', hashtags = None,
                    views = 5, likes = 0, comments = 0, shares = 0\<rparr>]"
  have h: "type_key ` set ?rows = {''short''}"
    by (simp add: type_key_def)
  show ?thesis
    using single_type_actions [OF h] h by auto
qed

section \<open>Best hours\<close>

lemma byHour_entry:
  assumes "(h, v) \<in> set (byHour (aggregate rows))"
  shows "v = \<lparr>hAgg_views = sum_list (map views (filter (\<lambda>r. clamp_hour r = h) rows)),
             hAgg_posts = int (length (filter (\<lambda>r. clamp_hour r = h) rows))\<rparr>"
proof -
  have "distinct (map fst (byHour (aggregate rows)))"
    by (simp add: byHour_keys)
  then have "Map_get (byHour (aggregate rows)) h = Some v"
    using assms by (rule Map_get_distinct)
  then show ?thesis
    by (simp add: byHour_get split: if_splits)
qed

lemma keys_rated: "map fst (map (\<lambda>(k, v). (k, f v)) m) = map fst m"
  by (induction m) auto

lemma ranked_keys:
  "mset (map fst (Array_sort (\<lambda>a b. g b - g a) xs)) = mset (map fst xs)"
  using Array_sort_mset [of g xs] by (metis mset_map)

lemma analyse_bestHours: "bestHours (analyse rows) = Some (bestHours_of (aggregate rows))"
  by (simp add: analyse_def Let_def)

text \<open>
  Claim C2. \<open>bestHours\<close> holds the hours of the first three entries of the hour buckets
  ranked by \<open>safeRate(views, posts)\<close>, descending, entries of equal rate staying in the
  insertion order of the \<open>Map\<close> (the order in which the hours first occur in the rows).
  It has at most 3 hours and at most as many as there are distinct hour buckets, and with
  fewer than 3 buckets it holds all of them.
\<close>

theorem bestHours_ranking:
  "(let hours = byHour (aggregate rows);
        rated = map (\<lambda>(h, v). (h, safeRate (of_int (hAgg_views v)) (of_int (hAgg_posts v)))) hours;
        ranked = Array_sort (\<lambda>a b. snd b - snd a) rated;
        best = map fst (take 3 ranked)
    in bestHours (analyse rows) = Some best
       \<and> map fst hours = first_seen (map clamp_hour rows)
       \<and> (\<forall>(h, v) \<in> set hours.
             v = \<lparr>hAgg_views = sum_list (map views (filter (\<lambda>r. clamp_hour r = h) rows)),
                  hAgg_posts = int (length (filter (\<lambda>r. clamp_hour r = h) rows))\<rparr>)
       \<and> mset ranked = mset rated
       \<and> sorted_wrt (\<lambda>a b. snd b \<le> snd a) ranked
       \<and> (\<forall>q. filter (\<lambda>e. snd e = q) ranked = filter (\<lambda>e. snd e = q) rated)
       \<and> length best = min 3 (length hours)
       \<and> length best \<le> 3
       \<and> length best \<le> length (first_seen (map clamp_hour rows))
       \<and> distinct best
       \<and> set best \<subseteq> set (map fst hours)
       \<and> (length hours < 3 \<longrightarrow> best = map fst ranked \<and> set best = set (map fst hours)))"
proof -
  define hours where "hours = byHour (aggregate rows)"
  define rated where
    "rated = map (\<lambda>(h, v). (h, safeRate (of_int (hAgg_views v)) (of_int (hAgg_posts v)))) hours"
  define ranked where "ranked = Array_sort (\<lambda>a b. snd b - snd a) rated"
  define best where "best = map fst (take 3 ranked)"
  have a: "bestHours (analyse rows) = Some best"
    by (simp add: analyse_bestHours bestHours_of_def topN_def best_def ranked_def rated_def hours_def)
  have b: "map fst hours = first_seen (map clamp_hour rows)"
    by (simp add: hours_def byHour_keys)
  have c: "\<forall>(h, v) \<in> set hours.
             v = \<lparr>hAgg_views = sum_list (map views (filter (\<lambda>r. clamp_hour r = h) rows)),
                  hAgg_posts = int (length (filter (\<lambda>r. clamp_hour r = h) rows))\<rparr>"
    using byHour_entry by (auto simp: hours_def)
  have d: "mset ranked = mset rated"
    unfolding ranked_def by (rule Array_sort_mset)
  have e: "sorted_wrt (\<lambda>a b. snd b \<le> snd a) ranked"
    unfolding ranked_def by (rule Array_sort_sorted)
  have f: "\<forall>q. filter (\<lambda>e. snd e = q) ranked = filter (\<lambda>e. snd e = q) rated"
    unfolding ranked_def by (simp add: Array_sort_stable)
  have len: "length ranked = length hours"
    by (simp add: ranked_def rated_def Array_sort_length)
  have g: "length best = min 3 (length hours)"
    by (simp add: best_def len min.commute)
  have "mset (map fst ranked) = mset (map fst rated)"
    unfolding ranked_def by (rule ranked_keys)
  moreover have "map fst rated = map fst hours"
    unfolding rated_def by (rule keys_rated)
  ultimately have keys: "mset (map fst ranked) = mset (map fst hours)"
    by (simp only:)
  have "distinct (map fst hours)"
    by (simp add: b)
  then have dk: "distinct (map fst ranked)"
    using keys by (metis mset_eq_imp_distinct_iff)
  have sk: "set (map fst ranked) = set (map fst hours)"
    using keys by (rule mset_eq_setD)
  have tk: "best = take 3 (map fst ranked)"
    by (simp add: best_def take_map)
  have h: "distinct best"
    unfolding tk using dk by (rule distinct_take)
  have i: "set best \<subseteq> set (map fst hours)"
    unfolding tk using sk set_take_subset [of 3 "map fst ranked"] by simp
  have j: "length hours < 3 \<longrightarrow> best = map fst ranked \<and> set best = set (map fst hours)"
    using sk len by (simp add: tk)
  have k: "length best \<le> 3 \<and> length best \<le> length (first_seen (map clamp_hour rows))"
    using g b by (metis length_map min.cobounded1 min.cobounded2)
  show ?thesis
    unfolding Let_def
    using a b c d e f g h i j k
    unfolding best_def ranked_def rated_def hours_def
    by (intro conjI) blast+
qed

theorem bestHours_ranking_witness:
  "bestHours (analyse
      [\<lparr>hour = JNum 18, contentType = None, hashtags = None, views = 100 :: int,
         likes = 0, comments = 0, shares = 0\<rparr>,
       \<lparr>hour = JNum 12, contentType = None, hashtags = None, views = 50,
         likes = 0, comments = 0, shares = 0\<rparr>,
       \<lparr>hour = JNum 9, contentType = None, hashtags = None, views = 100,
         likes = 0, comments = 0, shares = 0\<rparr>,
       \<lparr>hour = JNum 20, contentType = None, hashtags = None, views = 10,
         likes = 0, comments = 0, shares = 0\<rparr>]) = Some [Fin 18, Fin 9, Fin 12]
   \<and> length (byHour (aggregate
      [\<lparr>hour = JNum 18, contentType = None, hashtags = None, views = 12000 :: int,
         likes = 0, comments = 0, shares = 0\<rparr>,
       \<lparr>hour = JNum 12, contentType = None, hashtags = None, views = 6000,
         likes = 0, comments = 0, shares = 0\<rparr>])) < 3
   \<and> bestHours (analyse
      [\<lparr>hour = JNum 18, contentType = None, hashtags = None, views = 12000 :: int,
         likes = 0, comments = 0, shares = 0\<rparr>,
       \<lparr>hour = JNum 12, contentType = None, hashtags = None, views = 6000,
         likes = 0, comments = 0, shares = 0\<rparr>]) = Some [Fin 18, Fin 12]"
proof -
  let ?four = "[\<lparr>hour = JNum 18, contentType = None, hashtags = None, views = 100 :: int,
         likes = 0, comments = 0, shares = 0\<rparr>,
       \<lparr>hour = JNum 12, contentType = None, hashtags = None, views = 50,
         likes = 0, comments = 0, shares = 0\<rparr>,
       \<lparr>hour = JNum 9, contentType = None, hashtags = None, views = 100,
         likes = 0, comments = 0, shares = 0\<rparr>,
       \<lparr>hour = JNum 20, contentType = None, hashtags = None, views = 10,
         likes = 0, comments = 0, shares = 0\<rparr>]"
  let ?two = "[\<lparr>hour = JNum 18, contentType = None, hashtags = None, views = 12000 :: int,
         likes = 0, comments = 0, shares = 0\<rparr>,
       \<lparr>hour = JNum 12, contentType = None, hashtags = None, views = 6000,
         likes = 0, comments = 0, shares = 0\<rparr>]"
  have r4: "map fst (take 3 (Array_sort (\<lambda>a b. snd b - snd a)
              (map (\<lambda>(h, v). (h, safeRate (of_int (hAgg_views v)) (of_int (hAgg_posts v))))
                 (byHour (aggregate ?four))))) = [Fin 18, Fin 9, Fin 12]"
    by code_simp
  have r2: "map fst (Array_sort (\<lambda>a b. snd b - snd a)
              (map (\<lambda>(h, v). (h, safeRate (of_int (hAgg_views v)) (of_int (hAgg_posts v))))
                 (byHour (aggregate ?two)))) = [Fin 18, Fin 12]"
    by code_simp
  have l2: "length (byHour (aggregate ?two)) < 3"
    by code_simp
  note t4 = bestHours_ranking [of ?four, unfolded Let_def]
  note t2 = bestHours_ranking [of ?two, unfolded Let_def]
  have "bestHours (analyse ?four) = Some (map fst (take 3 (Array_sort (\<lambda>a b. snd b - snd a)
              (map (\<lambda>(h, v). (h, safeRate (of_int (hAgg_views v)) (of_int (hAgg_posts v))))
                 (byHour (aggregate ?four))))))"
    using t4 by (rule conjunct1)
  then have b4: "bestHours (analyse ?four) = Some [Fin 18, Fin 9, Fin 12]"
    unfolding r4 .
  have "bestHours (analyse ?two) = Some (map fst (take 3 (Array_sort (\<lambda>a b. snd b - snd a)
              (map (\<lambda>(h, v). (h, safeRate (of_int (hAgg_views v)) (of_int (hAgg_posts v))))
                 (byHour (aggregate ?two))))))"
    using t2 by (rule conjunct1)
  moreover have "length (byHour (aggregate ?two)) < 3 \<longrightarrow>
      map fst (take 3 (Array_sort (\<lambda>a b. snd b - snd a)
              (map (\<lambda>(h, v). (h, safeRate (of_int (hAgg_views v)) (of_int (hAgg_posts v))))
                 (byHour (aggregate ?two))))) =
      map fst (Array_sort (\<lambda>a b. snd b - snd a)
              (map (\<lambda>(h, v). (h, safeRate (of_int (hAgg_views v)) (of_int (hAgg_posts v))))
                 (byHour (aggregate ?two))))
      \<and> set (map fst (take 3 (Array_sort (\<lambda>a b. snd b - snd a)
              (map (\<lambda>(h, v). (h, safeRate (of_int (hAgg_views v)) (of_int (hAgg_posts v))))
                 (byHour (aggregate ?two)))))) = set (map fst (byHour (aggregate ?two)))"
    using t2 by (elim conjE)
  ultimately have b2: "bestHours (analyse ?two) = Some [Fin 18, Fin 12]"
    using l2 unfolding r2 by (simp only:)
  show ?thesis
    by (intro conjI b4 l2 b2)
qed

section \<open>Hashtag rankings\<close>

lemma hashtagStats_entry:
  assumes "(k, v) \<in> set (hashtagStats (aggregate rows))"
  shows "v = \<lparr>stat_views = sum_list (map snd (filter (\<lambda>p. fst p = k) (tag_uses rows))),
             stat_uses = int (length (filter (\<lambda>p. fst p = k) (tag_uses rows)))\<rparr>"
proof -
  have "distinct (map fst (hashtagStats (aggregate rows)))"
    by (simp add: hashtagStats_keys)
  then have "Map_get (hashtagStats (aggregate rows)) k = Some v"
    using assms by (rule Map_get_distinct)
  then show ?thesis
    by (simp add: hashtagStats_get split: if_splits)
qed

lemma tag_uses_key:
  assumes "k \<in> set (map fst (tag_uses rows))"
  shows "k \<noteq> [] \<and> CHR ''#'' \<notin> set k \<and> normalize_tag k = k"
proof -
  from assms obtain h where k: "k = tag_key h" and ne: "k \<noteq> []"
    by (auto simp: tag_uses_def)
  have "\<not> hash_or_space c" if "c \<in> set k" for c
    using that k normalize_clean by (simp add: tag_key_def)
  then have "CHR ''#'' \<notin> set k"
    by (auto simp: hash_or_space_def)
  moreover have "normalize_tag k = k"
    by (simp add: k tag_key_def normalize_idem)
  ultimately show ?thesis using ne by simp
qed

lemma analyse_topHashtags: "topHashtags (analyse rows) = Some (topHashtags_of (aggregate rows))"
  by (simp add: analyse_def Let_def)

lemma analyse_hashtagLeaders:
  "map_option hashtagLeaders (diagnostics (analyse rows)) = Some (hashtagLeaders_of (aggregate rows))"
  by (simp add: analyse_def Let_def)

lemma Array_sort_int_sorted:
  fixes g :: "'a \<Rightarrow> int"
  shows "sorted_wrt (\<lambda>a b. g b \<le> g a) (Array_sort (\<lambda>a b. of_int (g b) - of_int (g a)) xs)"
  using Array_sort_sorted [of "\<lambda>e. of_int (g e) :: rat" xs] by simp

lemma Array_sort_int_stable:
  fixes g :: "'a \<Rightarrow> int"
  shows "filter (\<lambda>e. g e = q) (Array_sort (\<lambda>a b. of_int (g b) - of_int (g a)) xs) = filter (\<lambda>e. g e = q) xs"
  using Array_sort_stable [of "\<lambda>e. of_int (g e) :: rat" "of_int q" xs] by simp

text \<open>
  Claim C3. \<open>topHashtags\<close> holds the keys (normalized, so without \<open>#\<close>) of the first 15
  hashtag buckets ranked by \<open>safeRate(views, uses)\<close>, descending; \<open>hashtagLeaders\<close> in the
  diagnostics holds the first 20 buckets ranked by their raw view totals, descending.
  Both are stable sorts of the same buckets of \<open>hashtagStats\<close>, by two different keys.
\<close>

theorem hashtag_rankings:
  "(let stats = hashtagStats (aggregate rows);
        rated = map (\<lambda>(k, v). (k, safeRate (of_int (stat_views v)) (of_int (stat_uses v)))) stats;
        by_rate = Array_sort (\<lambda>a b. snd b - snd a) rated;
        by_views = Array_sort (\<lambda>a b. of_int (stat_views (snd b)) - of_int (stat_views (snd a))) stats
    in topHashtags (analyse rows) = Some (map fst (take 15 by_rate))
       \<and> map_option hashtagLeaders (diagnostics (analyse rows)) = Some (take 20 by_views)
       \<and> length (map fst (take 15 by_rate)) = min 15 (length stats)
       \<and> length (take 20 by_views) = min 20 (length stats)
       \<and> mset by_rate = mset rated
       \<and> sorted_wrt (\<lambda>a b. snd b \<le> snd a) by_rate
       \<and> (\<forall>q. filter (\<lambda>e. snd e = q) by_rate = filter (\<lambda>e. snd e = q) rated)
       \<and> mset by_views = mset stats
       \<and> sorted_wrt (\<lambda>a b. stat_views (snd b) \<le> stat_views (snd a)) by_views
       \<and> (\<forall>q. filter (\<lambda>e. stat_views (snd e) = q) by_views = filter (\<lambda>e. stat_views (snd e) = q) stats)
       \<and> (\<forall>k \<in> set (map fst (take 15 by_rate)). k \<noteq> [] \<and> CHR ''#'' \<notin> set k \<and> normalize_tag k = k)
       \<and> map fst stats = first_seen (map fst (tag_uses rows))
       \<and> (\<forall>(k, v) \<in> set stats.
             v = \<lparr>stat_views = sum_list (map snd (filter (\<lambda>p. fst p = k) (tag_uses rows))),
                  stat_uses = int (length (filter (\<lambda>p. fst p = k) (tag_uses rows)))\<rparr>))"
proof -
  define stats where "stats = hashtagStats (aggregate rows)"
  define rated where
    "rated = map (\<lambda>(k, v). (k, safeRate (of_int (stat_views v)) (of_int (stat_uses v)))) stats"
  define by_rate where "by_rate = Array_sort (\<lambda>a b. snd b - snd a) rated"
  define by_views where
    "by_views = Array_sort (\<lambda>a b. of_int (stat_views (snd b)) - of_int (stat_views (snd a))) stats"
  have a: "topHashtags (analyse rows) = Some (map fst (take 15 by_rate))"
    by (simp add: analyse_topHashtags topHashtags_of_def topN_def by_rate_def rated_def stats_def)
  have b: "map_option hashtagLeaders (diagnostics (analyse rows)) = Some (take 20 by_views)"
    by (simp add: analyse_hashtagLeaders hashtagLeaders_of_def by_views_def stats_def)
  have c: "length (map fst (take 15 by_rate)) = min 15 (length stats)"
    by (simp add: by_rate_def rated_def Array_sort_length min.commute)
  have d: "length (take 20 by_views) = min 20 (length stats)"
    by (simp add: by_views_def Array_sort_length min.commute)
  have e: "mset by_rate = mset rated"
    unfolding by_rate_def by (rule Array_sort_mset)
  have f: "sorted_wrt (\<lambda>a b. snd b \<le> snd a) by_rate"
    unfolding by_rate_def by (rule Array_sort_sorted)
  have g: "\<forall>q. filter (\<lambda>e. snd e = q) by_rate = filter (\<lambda>e. snd e = q) rated"
    unfolding by_rate_def by (simp add: Array_sort_stable)
  have h: "mset by_views = mset stats"
    unfolding by_views_def by (rule Array_sort_mset [of "\<lambda>e. of_int (stat_views (snd e))"])
  have i: "sorted_wrt (\<lambda>a b. stat_views (snd b) \<le> stat_views (snd a)) by_views"
    unfolding by_views_def by (rule Array_sort_int_sorted)
  have j: "\<forall>q. filter (\<lambda>e. stat_views (snd e) = q) by_views = filter (\<lambda>e. stat_views (snd e) = q) stats"
    unfolding by_views_def by (simp add: Array_sort_int_stable)
  have m: "map fst stats = first_seen (map fst (tag_uses rows))"
    by (simp add: stats_def hashtagStats_keys)
  have "mset (map fst by_rate) = mset (map fst rated)"
    unfolding by_rate_def by (rule ranked_keys)
  moreover have "map fst rated = map fst stats"
    unfolding rated_def by (rule keys_rated)
  ultimately have "mset (map fst by_rate) = mset (map fst stats)"
    by (simp only:)
  then have "set (map fst by_rate) = set (map fst stats)"
    by (rule mset_eq_setD)
  then have sub: "set (map fst (take 15 by_rate)) \<subseteq> set (map fst (tag_uses rows))"
    using set_take_subset [of 15 "map fst by_rate"] by (simp add: m take_map [symmetric])
  have l: "\<forall>k \<in> set (map fst (take 15 by_rate)). k \<noteq> [] \<and> CHR ''#'' \<notin> set k \<and> normalize_tag k = k"
    using sub tag_uses_key by blast
  have n: "\<forall>(k, v) \<in> set stats.
             v = \<lparr>stat_views = sum_list (map snd (filter (\<lambda>p. fst p = k) (tag_uses rows))),
                  stat_uses = int (length (filter (\<lambda>p. fst p = k) (tag_uses rows)))\<rparr>"
    using hashtagStats_entry by (auto simp: stats_def)
  show ?thesis
    unfolding Let_def
    using a b c d e f g h i j l m n
    unfolding by_rate_def by_views_def rated_def stats_def
    by (intro conjI) blast+
qed

theorem hashtag_rankings_witness:
  "topHashtags (analyse
      [\<lparr>hour = JNum 1, contentType = None, hashtags = Some [Some ''#a''], views = 10 :: int,
         likes = 0, comments = 0, shares = 0\<rparr>,
       \<lparr>hour = JNum 2, contentType = None, hashtags = Some [Some ''A''], views = 10,
         likes = 0, comments = 0, shares = 0\<rparr>,
       \<lparr>hour = JNum 3, contentType = None, hashtags = Some [Some ''b''], views = 15,
         likes = 0, comments = 0, shares = 0\<rparr>]) = Some [''b'', ''a'']
   \<and> map_option hashtagLeaders (diagnostics (analyse
      [\<lparr>hour = JNum 1, contentType = None, hashtags = Some [Some ''#a''], views = 10 :: int,
         likes = 0, comments = 0, shares = 0\<rparr>,
       \<lparr>hour = JNum 2, contentType = None, hashtags = Some [Some ''A''], views = 10,
         likes = 0, comments = 0, shares = 0\<rparr>,
       \<lparr>hour = JNum 3, contentType = None, hashtags = Some [Some ''b''], views = 15,
         likes = 0, comments = 0, shares = 0\<rparr>]))
     = Some [(''a'', \<lparr>stat_views = 20, stat_uses = 2\<rparr>), (''b'', \<lparr>stat_views = 15, stat_uses = 1\<rparr>)]
   \<and> ''b'' \<in> set [''b'', ''a''] \<and> CHR ''#'' \<notin> set ''b''"
proof -
  let ?rows = "[\<lparr>hour = JNum 1, contentType = None, hashtags = Some [Some ''#a''], views = 10 :: int,
         likes = 0, comments = 0, shares = 0\<rparr>,
       \<lparr>hour = JNum 2, contentType = None, hashtags = Some [Some ''A''], views = 10,
         likes = 0, comments = 0, shares = 0\<rparr>,
       \<lparr>hour = JNum 3, contentType = None, hashtags = Some [Some ''b''], views = 15,
         likes = 0, comments = 0, shares = 0\<rparr>]"
  have r: "map fst (take 15 (Array_sort (\<lambda>a b. snd b - snd a)
             (map (\<lambda>(k, v). (k, safeRate (of_int (stat_views v)) (of_int (stat_uses v))))
                (hashtagStats (aggregate ?rows))))) = [''b'', ''a'']"
    by code_simp
  have v: "take 20 (Array_sort (\<lambda>a b. of_int (stat_views (snd b)) - of_int (stat_views (snd a)))
             (hashtagStats (aggregate ?rows)))
           = [(''a'', \<lparr>stat_views = 20, stat_uses = 2\<rparr>), (''b'', \<lparr>stat_views = 15, stat_uses = 1\<rparr>)]"
    by code_simp
  note t = hashtag_rankings [of ?rows, unfolded Let_def r v]
  have a: "topHashtags (analyse ?rows) = Some [''b'', ''a'']"
    using t by (rule conjunct1)
  have b: "map_option hashtagLeaders (diagnostics (analyse ?rows))
     = Some [(''a'', \<lparr>stat_views = 20, stat_uses = 2\<rparr>), (''b'', \<lparr>stat_views = 15, stat_uses = 1\<rparr>)]"
    using t by (elim conjE)
  have c: "\<forall>k \<in> set [''b'', ''a'']. k \<noteq> [] \<and> CHR ''#'' \<notin> set k \<and> normalize_tag k = k"
    using t by (elim conjE)
  have d: "''b'' \<in> set [''b'', ''a'']"
    by simp
  from c d have "CHR ''#'' \<notin> set ''b''"
    by blast
  with a b d show ?thesis
    by (intro conjI)
qed

section \<open>Type scores\<close>

lemma byType_entry:
  assumes "(t, v) \<in> set (byType (aggregate rows))"
  shows "v = \<lparr>tAgg_views = sum_list (map views (filter (\<lambda>r. type_key r = t) rows)),
             tAgg_posts = int (length (filter (\<lambda>r. type_key r = t) rows)),
             tAgg_likes = sum_list (map likes (filter (\<lambda>r. type_key r = t) rows)),
             tAgg_comments = sum_list (map comments (filter (\<lambda>r. type_key r = t) rows)),
             tAgg_shares = sum_list (map shares (filter (\<lambda>r. type_key r = t) rows))\<rparr>"
proof -
  have "distinct (map fst (byType (aggregate rows)))"
    by (simp add: byType_keys)
  then have "Map_get (byType (aggregate rows)) t = Some v"
    using assms by (rule Map_get_distinct)
  then show ?thesis
    by (simp add: byType_get split: if_splits)
qed

lemma byType_entry_rows:
  assumes "(t, v) \<in> set (byType (aggregate rows))"
  shows "filter (\<lambda>r. type_key r = t) rows \<noteq> []"
proof -
  have "t \<in> set (map fst (byType (aggregate rows)))"
    using assms by force
  then have "t \<in> type_key ` set rows"
    by (simp add: byType_keys)
  then show ?thesis
    by (auto simp: filter_empty_conv)
qed

lemma type_score_fields:
  "ts_type (type_score (t, v)) = t
   \<and> engagementRate (type_score (t, v)) =
       safeRate (of_int (tAgg_likes v + 2 * tAgg_comments v + 3 * tAgg_shares v))
                (of_int (if tAgg_views v = 0 then tAgg_posts v else tAgg_views v))
   \<and> viewPerPost (type_score (t, v)) = safeRate (of_int (tAgg_views v)) (of_int (tAgg_posts v))
   \<and> score (type_score (t, v)) =
       toFixed (7 / 10 * viewPerPost (type_score (t, v)) + 3 / 10 * engagementRate (type_score (t, v))) 6"
  by (simp add: type_score_def Let_def mult.commute)

lemma keys_scored: "map ts_type (map type_score m) = map fst m"
  by (induction m) (auto simp: type_score_fields)

lemma analyse_typeScores:
  "map_option diag_typeScores (diagnostics (analyse rows)) = Some (typeScores_of (aggregate rows))"
  by (simp add: analyse_def Let_def)

lemma typeScores_entry:
  assumes "e \<in> set (typeScores_of (aggregate rows))"
  shows "(let rs = filter (\<lambda>r. type_key r = ts_type e) rows;
              v = sum_list (map views rs);
              p = int (length rs);
              engagement = sum_list (map likes rs) + 2 * sum_list (map comments rs)
                             + 3 * sum_list (map shares rs)
          in rs \<noteq> []
             \<and> engagementRate e = safeRate (of_int engagement) (of_int (if v = 0 then p else v))
             \<and> viewPerPost e = safeRate (of_int v) (of_int p)
             \<and> score e = toFixed (7 / 10 * viewPerPost e + 3 / 10 * engagementRate e) 6)"
proof -
  from assms have "e \<in> set (map type_score (byType (aggregate rows)))"
    by (simp add: typeScores_of_def Array_sort_set)
  then obtain t v where tv: "(t, v) \<in> set (byType (aggregate rows))" and e: "e = type_score (t, v)"
    by auto
  have t: "ts_type e = t"
    by (simp add: e type_score_fields)
  note f = type_score_fields [of t v, folded e]
  note v = byType_entry [OF tv]
  have rs: "filter (\<lambda>r. type_key r = t) rows \<noteq> []"
    using tv by (rule byType_entry_rows)
  have er: "engagementRate e =
       safeRate (of_int (tAgg_likes v + 2 * tAgg_comments v + 3 * tAgg_shares v))
                (of_int (if tAgg_views v = 0 then tAgg_posts v else tAgg_views v))"
    using f by blast
  have vp: "viewPerPost e = safeRate (of_int (tAgg_views v)) (of_int (tAgg_posts v))"
    using f by blast
  have sc: "score e = toFixed (7 / 10 * viewPerPost e + 3 / 10 * engagementRate e) 6"
    using f by blast
  show ?thesis
    unfolding Let_def t
    using rs sc
    by (intro conjI) (simp_all add: er vp v)
qed



end
